theory Spec2Isabelle
  imports Complex_Main "HOL-Library.AList"
begin

section \<open>The buy-and-hold simulator of Strategies/buy\_and\_hold.py\<close>

text \<open>
  The class \<open>BuyAndHold\<close> walks a price table once and keeps four parallel lists
  (\<open>theta\<close>, \<open>cap_V\<close>, \<open>PnL\<close>, \<open>stock_hold\<close>). Python's floats are modelled as
  \<^typ>\<open>real\<close>: the model says nothing about rounding, and a zero price, which
  numpy's division turns into \<open>inf\<close> or \<open>nan\<close> without raising, lies outside
  it (HOL's \<open>x / 0\<close> is \<open>0\<close>); the theorems that speak about a quotient assume the
  divisor is not zero. A \<open>NaN\<close> cell that pandas itself produces (\<open>shift\<close>,
  \<open>diff\<close>) is \<open>None\<close> in a list of \<^typ>\<open>real option\<close>.
\<close>

subsection \<open>Data\<close>

datatype error = KeyError | IndexError | TypeError | ValueError

text \<open>One row of the input table: the three columns the class reads.\<close>

record row =
  Adj_Close :: real
  Return_Unit :: real
  Daily_Rate :: real

text \<open>
  The table \<open>self.df\<close>: its rows (so that all input columns have the length
  \<open>len(df)\<close>), and the columns the accessors assign, in the order of their first
  assignment; assigning an existing column overwrites it in place. The record has no
  index: the table is taken with pandas' default index \<open>0, \<dots>, len(df) - 1\<close>, where
  the label \<open>i\<close> names row \<open>i\<close>. On a table with another index the lookup
  \<open>df[c][i]\<close> can raise although the table has a row \<open>i\<close>; such tables lie
  outside the model, and no theorem below says that a read succeeds on them.
\<close>

record dataframe =
  rows :: "row list"
  written :: "(string \<times> real option list) list"

definition len_df :: "dataframe \<Rightarrow> nat" where
  "len_df d = length (rows d)"

text \<open>
  \<open>df[c][i]\<close> under the default index: label \<open>i\<close> is position \<open>i\<close>, and a label
  the index does not have raises.
\<close>

definition column_at :: "(row \<Rightarrow> real) \<Rightarrow> dataframe \<Rightarrow> nat \<Rightarrow> error + real" where
  "column_at c d i = (if i < len_df d then Inr (c (rows d ! i)) else Inl KeyError)"

text \<open>
  \<open>df[name] = xs\<close> on a table with at least one row: pandas refuses a list whose
  length is not \<open>len(df)\<close>. On a table without rows pandas enlarges the table
  instead, which the rows of the model cannot express; no constructed object has such
  a table, and the theorem that uses \<open>set_column\<close> assumes \<open>0 < len(df)\<close>.
\<close>

definition set_column :: "string \<Rightarrow> real option list \<Rightarrow> dataframe \<Rightarrow> error + dataframe" where
  "set_column name xs d =
     (if length xs = len_df d
      then Inr (d\<lparr>written := AList.update name xs (written d)\<rparr>)
      else Inl ValueError)"

text \<open>The table \<open>self.signals\<close> built by \<open>generate_signals\<close>.\<close>

record signal_frame =
  Signal :: "int list"
  Position :: "real option list"

text \<open>The object: the fields assigned in \<open>__init__\<close>.\<close>

record buy_and_hold =
  signals :: "signal_frame option"
  df :: dataframe
  V_0 :: real
  L :: real
  theta_0 :: real
  theta :: "real list"
  cap_V :: "real list"
  PnL :: "real list"
  stock_hold :: "real list"

subsection \<open>Construction and signals\<close>

text \<open>
  \<open>__init__\<close> checks nothing; the only way it fails is the read of
  \<open>df['Adj Close'][0]\<close>.
\<close>

definition init :: "dataframe \<Rightarrow> real \<Rightarrow> real \<Rightarrow> error + buy_and_hold" where
  "init d v l =
     (case column_at Adj_Close d 0 of
        Inl e \<Rightarrow> Inl e
      | Inr p0 \<Rightarrow>
          Inr \<lparr>signals = None, df = d, V_0 = v, L = l, theta_0 = v * l,
               theta = [v * l], cap_V = [0], PnL = [0], stock_hold = [v * l / p0]\<rparr>)"

text \<open>\<open>Series.diff()\<close> of an integer column: \<open>NaN\<close> first, then the differences.\<close>

definition diff_int :: "int list \<Rightarrow> real option list" where
  "diff_int xs =
     (case xs of
        [] \<Rightarrow> []
      | _ # _ \<Rightarrow> None # map2 (\<lambda>a b. Some (real_of_int (a - b))) (tl xs) (butlast xs))"

definition generate_signals :: "buy_and_hold \<Rightarrow> buy_and_hold" where
  "generate_signals s =
     (let sg = replicate (len_df (df s)) (1::int)
      in s\<lparr>signals := Some \<lparr>Signal = sg, Position = diff_int sg\<rparr>\<rparr>)"

subsection \<open>The simulation loop\<close>

datatype regime = Over_exposed | Buffer_band | Wipeout

text \<open>The \<open>if\<close> / \<open>elif\<close> / \<open>else\<close> chain of \<open>execute_strategy\<close>, in its order.\<close>

definition classify :: "real \<Rightarrow> real \<Rightarrow> real \<Rightarrow> regime" where
  "classify th0 v0 theta_t =
     (if \<bar>theta_t\<bar> > th0 then Over_exposed
      else if \<bar>theta_t\<bar> \<le> th0 \<and> \<bar>theta_t\<bar> > th0 - v0 then Buffer_band
      else Wipeout)"

text \<open>The four \<open>append\<close> calls that end an iteration.\<close>

definition append_period :: "real \<Rightarrow> real \<Rightarrow> real \<Rightarrow> real \<Rightarrow> buy_and_hold \<Rightarrow> buy_and_hold" where
  "append_period cap_V_t theta_t hold_t PnL_t s =
     s\<lparr>cap_V := cap_V s @ [cap_V_t],
       theta := theta s @ [theta_t],
       stock_hold := stock_hold s @ [hold_t],
       PnL := PnL s @ [PnL_t]\<rparr>"

text \<open>
  One iteration of the loop, for \<open>i \<ge> 1\<close>. The result \<open>None\<close> is the \<open>break\<close>
  of the last branch: it comes before the four appends, so that branch leaves the
  object as it was. In the first branch \<open>self.signals['Signal'][i]\<close> raises when
  \<open>generate_signals\<close> has not run.
\<close>

definition step :: "nat \<Rightarrow> buy_and_hold \<Rightarrow> error + buy_and_hold option" where
  "step i s =
     (if \<not> i - 1 < length (stock_hold s) then Inl IndexError
      else if \<not> i < len_df (df s) then Inl KeyError
      else
        let price = Adj_Close (rows (df s) ! i);
            ret = Return_Unit (rows (df s) ! i);
            theta_t = stock_hold s ! (i - 1) * price
        in case classify (theta_0 s) (V_0 s) theta_t of
             Over_exposed \<Rightarrow>
               (case signals s of
                  None \<Rightarrow> Inl TypeError
                | Some sg \<Rightarrow>
                    if \<not> i < length (Signal sg) then Inl KeyError
                    else
                      let cap_V_t = \<bar>theta_t\<bar> - theta_0 s;
                          PnL_t = ret * theta_t;
                          theta_new = theta_0 s * real_of_int (Signal sg ! i);
                          hold_t = theta_new / price
                      in Inr (Some (append_period cap_V_t theta_new hold_t PnL_t s)))
           | Buffer_band \<Rightarrow>
               Inr (Some (append_period 0 theta_t (last (stock_hold s)) (ret * theta_t) s))
           | Wipeout \<Rightarrow> Inr None)"

text \<open>
  The \<open>for\<close> loop over the remaining indices. The flag of the result says whether
  the loop ended by \<open>break\<close>.
\<close>

fun run_periods :: "nat list \<Rightarrow> buy_and_hold \<Rightarrow> error + (bool \<times> buy_and_hold)" where
  "run_periods [] s = Inr (False, s)"
| "run_periods (i # js) s =
     (case step i s of
        Inl e \<Rightarrow> Inl e
      | Inr None \<Rightarrow> Inr (True, s)
      | Inr (Some s') \<Rightarrow> run_periods js s')"

definition execute_strategy :: "buy_and_hold \<Rightarrow> error + buy_and_hold" where
  "execute_strategy s =
     (case run_periods [1 ..< len_df (df s)] s of
        Inl e \<Rightarrow> Inl e
      | Inr (halted, s') \<Rightarrow> Inr s')"

definition run :: "buy_and_hold \<Rightarrow> error + buy_and_hold" where
  "run s = execute_strategy (generate_signals s)"

subsection \<open>Padding accessors\<close>

text \<open>
  \<open>xs.extend([0] * (len(df) - len(xs)))\<close> followed by \<open>xs[:len(df)]\<close>. A list
  times a negative number is empty, which is what the truncating difference on
  \<^typ>\<open>nat\<close> gives.
\<close>

definition extend_zeros :: "nat \<Rightarrow> real list \<Rightarrow> real list" where
  "extend_zeros n xs = xs @ replicate (n - length xs) 0"

text \<open>
  The column assigned has exactly \<open>len(df)\<close> cells (lemma \<open>length_padded\<close> below),
  so the assignment cannot be refused; the accessor returns the column it has just
  assigned.
\<close>

definition assign :: "string \<Rightarrow> real option list \<Rightarrow> dataframe \<Rightarrow> dataframe" where
  "assign name xs d = d\<lparr>written := AList.update name xs (written d)\<rparr>"

definition get_theta :: "buy_and_hold \<Rightarrow> real list \<times> buy_and_hold" where
  "get_theta s =
     (let n = len_df (df s);
          ext = extend_zeros n (theta s);
          col = take n ext
      in (col, s\<lparr>theta := ext, df := assign ''theta'' (map Some col) (df s)\<rparr>))"

definition get_stock_hold :: "buy_and_hold \<Rightarrow> real list \<times> buy_and_hold" where
  "get_stock_hold s =
     (let n = len_df (df s);
          ext = extend_zeros n (stock_hold s);
          col = take n ext
      in (col, s\<lparr>stock_hold := ext, df := assign ''Stock Holding'' (map Some col) (df s)\<rparr>))"

definition get_cap_V :: "buy_and_hold \<Rightarrow> real list \<times> buy_and_hold" where
  "get_cap_V s =
     (let n = len_df (df s);
          ext = extend_zeros n (cap_V s);
          col = take n ext
      in (col, s\<lparr>cap_V := ext, df := assign ''Capital Money'' (map Some col) (df s)\<rparr>))"

definition get_PnL :: "buy_and_hold \<Rightarrow> real list \<times> buy_and_hold" where
  "get_PnL s =
     (let n = len_df (df s);
          ext = extend_zeros n (PnL s);
          col = take n ext
      in (col, s\<lparr>PnL := ext, df := assign ''PnL'' (map Some col) (df s)\<rparr>))"

subsection \<open>Turnover\<close>

text \<open>\<open>Series.shift(1)\<close>: the first cell becomes \<open>NaN\<close>, the last value is dropped.\<close>

definition shift1 :: "real list \<Rightarrow> real option list" where
  "shift1 xs = (case xs of [] \<Rightarrow> [] | _ # _ \<Rightarrow> None # map Some (butlast xs))"

text \<open>\<open>a - b\<close> and \<open>abs\<close> on cells: \<open>NaN\<close> stays \<open>NaN\<close>.\<close>

definition sub_cell :: "real \<Rightarrow> real option \<Rightarrow> real option" where
  "sub_cell a b = (case b of None \<Rightarrow> None | Some y \<Rightarrow> Some (a - y))"

definition abs_cell :: "real option \<Rightarrow> real option" where
  "abs_cell a = (case a of None \<Rightarrow> None | Some x \<Rightarrow> Some \<bar>x\<bar>)"

text \<open>
  \<open>Series.cumsum()\<close> with its default \<open>skipna=True\<close>: a \<open>NaN\<close> cell stays
  \<open>NaN\<close> and does not enter the running sum.
\<close>

fun cumsum_from :: "real \<Rightarrow> real option list \<Rightarrow> real option list" where
  "cumsum_from acc [] = []"
| "cumsum_from acc (None # xs) = None # cumsum_from acc xs"
| "cumsum_from acc (Some x # xs) = Some (acc + x) # cumsum_from (acc + x) xs"

definition cumsum :: "real option list \<Rightarrow> real option list" where
  "cumsum xs = cumsum_from 0 xs"

definition delta :: "real list \<Rightarrow> real option list" where
  "delta xs = map2 sub_cell xs (shift1 xs)"

definition get_turnover_dollars :: "buy_and_hold \<Rightarrow> real option list \<times> buy_and_hold" where
  "get_turnover_dollars s =
     (let (th, s1) = get_theta s;
          d = delta th;
          t = cumsum (map abs_cell d)
      in (t, s1\<lparr>df := assign ''turnover_dollars'' t (assign ''delta_theta'' d (df s1))\<rparr>))"

definition get_turnover_unit :: "buy_and_hold \<Rightarrow> real option list \<times> buy_and_hold" where
  "get_turnover_unit s =
     (let (sh, s1) = get_stock_hold s;
          d = delta sh;
          t = cumsum (map abs_cell d)
      in (t, s1\<lparr>df := assign ''turnover_unit'' t (assign ''delta_stock_hold'' d (df s1))\<rparr>))"

text \<open>
  The order of two cells as floats compare: a comparison with \<open>NaN\<close> is false.
  A series is non-decreasing when every cell is at most the next one.
\<close>

fun cell_le :: "real option \<Rightarrow> real option \<Rightarrow> bool" where
  "cell_le (Some a) (Some b) = (a \<le> b)"
| "cell_le _ _ = False"

fun nondecreasing :: "real option list \<Rightarrow> bool" where
  "nondecreasing (x # y # zs) = (cell_le x y \<and> nondecreasing (y # zs))"
| "nondecreasing _ = True"

subsection \<open>Compounded capital bucket\<close>

text \<open>
  The loop of \<open>get_cumulative_cap_V\<close>: every iteration calls \<open>get_cap_V\<close> again
  and reads cell \<open>i\<close> of what it returns.
\<close>

fun cap_V_loop :: "nat list \<Rightarrow> real list \<Rightarrow> buy_and_hold \<Rightarrow> error + (real list \<times> buy_and_hold)" where
  "cap_V_loop [] tot s = Inr (tot, s)"
| "cap_V_loop (i # js) tot s =
     (if \<not> i - 1 < length tot then Inl IndexError
      else
        let (col, s1) = get_cap_V s
        in if \<not> i < length col then Inl KeyError
           else
             case column_at Daily_Rate (df s1) i of
               Inl e \<Rightarrow> Inl e
             | Inr rate \<Rightarrow>
                 cap_V_loop js (tot @ [(tot ! (i - 1) + col ! i) * (1 + rate / 100)]) s1)"

definition get_cumulative_cap_V :: "buy_and_hold \<Rightarrow> error + (real list \<times> buy_and_hold)" where
  "get_cumulative_cap_V s =
     (let (col0, s0) = get_cap_V s
      in case cap_V_loop [1 ..< length col0] [0] s0 of
           Inl e \<Rightarrow> Inl e
         | Inr (tot, s1) \<Rightarrow>
             (case set_column ''cumulative_cap_V'' (map Some tot) (df s1) of
                Inl e \<Rightarrow> Inl e
              | Inr d \<Rightarrow> Inr (tot, s1\<lparr>df := d\<rparr>)))"

subsection \<open>Points of a run\<close>

text \<open>All four lists have \<open>n\<close> elements.\<close>

definition aligned :: "nat \<Rightarrow> buy_and_hold \<Rightarrow> bool" where
  "aligned n s \<longleftrightarrow>
     length (theta s) = n \<and> length (cap_V s) = n \<and> length (PnL s) = n \<and> length (stock_hold s) = n"

text \<open>
  The loop started in \<open>s0\<close> arrives at the start of iteration \<open>i\<close> in state \<open>s\<close>:
  the iterations \<open>1, \<dots>, i - 1\<close> have run and none of them left the loop.
\<close>

definition reaches :: "buy_and_hold \<Rightarrow> nat \<Rightarrow> buy_and_hold \<Rightarrow> bool" where
  "reaches s0 i s \<longleftrightarrow> run_periods [1 ..< i] s0 = Inr (False, s)"

text \<open>Constructing the object and calling \<open>run\<close>, as a caller does.\<close>

definition simulate :: "dataframe \<Rightarrow> real \<Rightarrow> real \<Rightarrow> error + buy_and_hold" where
  "simulate d v l = (case init d v l of Inl e \<Rightarrow> Inl e | Inr s \<Rightarrow> run s)"

subsection \<open>Example inputs\<close>

definition table :: "real list \<Rightarrow> dataframe" where
  "table ps = \<lparr>rows = map (\<lambda>p. \<lparr>Adj_Close = p, Return_Unit = 1 / 100, Daily_Rate = 1\<rparr>) ps,
              written = []\<rparr>"


text \<open>
  A table of five prices, run with \<open>V_0 = 1000\<close> and \<open>L = 2\<close>: period 1 is
  over-exposed (\<open>20 * 110 = 2200 > 2000\<close>), period 2 lies in the buffer band
  (\<open>200/11 * 100\<close>), period 3 is the wipeout (\<open>200/11 * 30 \<le> 1000\<close>).
\<close>

definition ex_table :: dataframe where
  "ex_table = table [100, 110, 100, 30, 100]"

definition ex_signals :: signal_frame where
  "ex_signals = \<lparr>Signal = [1, 1, 1, 1, 1], Position = [None, Some 0, Some 0, Some 0, Some 0]\<rparr>"

definition ex_start :: buy_and_hold where
  "ex_start = \<lparr>signals = None, df = ex_table, V_0 = 1000, L = 2, theta_0 = 2000,
               theta = [2000], cap_V = [0], PnL = [0], stock_hold = [20]\<rparr>"

definition ex_period2 :: buy_and_hold where
  "ex_period2 = \<lparr>signals = Some ex_signals, df = ex_table, V_0 = 1000, L = 2, theta_0 = 2000,
                 theta = [2000, 2000], cap_V = [0, 200], PnL = [0, 22],
                 stock_hold = [20, 200 / 11]\<rparr>"

definition ex_final :: buy_and_hold where
  "ex_final = \<lparr>signals = Some ex_signals, df = ex_table, V_0 = 1000, L = 2, theta_0 = 2000,
               theta = [2000, 2000, 20000 / 11], cap_V = [0, 200, 0], PnL = [0, 22, 200 / 11],
               stock_hold = [20, 200 / 11, 200 / 11]\<rparr>"

section \<open>Auxiliary facts\<close>

subsection \<open>Padding\<close>

lemma length_padded: "length (take n (extend_zeros n xs)) = n"
  by (simp add: extend_zeros_def)

lemma nth_padded:
  "i < n \<Longrightarrow> take n (extend_zeros n xs) ! i = (if i < length xs then xs ! i else 0)"
  by (simp add: extend_zeros_def nth_append)

lemma extend_zeros_idem: "extend_zeros n (extend_zeros n xs) = extend_zeros n xs"
  by (simp add: extend_zeros_def)

lemma len_df_assign: "len_df (assign name xs d) = len_df d"
  by (simp add: len_df_def assign_def)

lemma assign_idem: "assign name xs (assign name xs d) = assign name xs d"
  by (simp add: assign_def)

subsection \<open>The loop\<close>

lemma append_period_fields [simp]:
  "df (append_period c t h p s) = df s"
  "signals (append_period c t h p s) = signals s"
  "V_0 (append_period c t h p s) = V_0 s"
  "L (append_period c t h p s) = L s"
  "theta_0 (append_period c t h p s) = theta_0 s"
  "theta (append_period c t h p s) = theta s @ [t]"
  "cap_V (append_period c t h p s) = cap_V s @ [c]"
  "stock_hold (append_period c t h p s) = stock_hold s @ [h]"
  "PnL (append_period c t h p s) = PnL s @ [p]"
  by (simp_all add: append_period_def)

lemma step_SomeD:
  "step i s = Inr (Some s') \<Longrightarrow> \<exists>c t h p. s' = append_period c t h p s"
  by (auto simp: step_def Let_def split: if_splits regime.splits option.splits)

lemma run_periods_append:
  "run_periods (xs @ ys) s =
     (case run_periods xs s of
        Inl e \<Rightarrow> Inl e
      | Inr (h, s') \<Rightarrow> if h then Inr (True, s') else run_periods ys s')"
  by (induction xs arbitrary: s) (auto split: sum.splits option.splits)

lemma run_periods_extends:
  "run_periods js s = Inr (h, s') \<Longrightarrow>
     df s' = df s \<and> signals s' = signals s \<and> V_0 s' = V_0 s \<and> theta_0 s' = theta_0 s \<and> L s' = L s
     \<and> (\<exists>a. theta s' = theta s @ a) \<and> (\<exists>a. cap_V s' = cap_V s @ a)
     \<and> (\<exists>a. stock_hold s' = stock_hold s @ a) \<and> (\<exists>a. PnL s' = PnL s @ a)"
proof (induction js arbitrary: s)
  case Nil
  then show ?case by simp
next
  case (Cons i js)
  show ?case
  proof (cases "step i s")
    case (Inl e)
    with Cons.prems show ?thesis by simp
  next
    case (Inr r)
    show ?thesis
    proof (cases r)
      case None
      with Inr Cons.prems show ?thesis by simp
    next
      case (Some s1)
      with Inr obtain c t hd p where s1: "s1 = append_period c t hd p s"
        using step_SomeD by blast
      from Some Inr Cons.prems have "run_periods js s1 = Inr (h, s')" by simp
      from Cons.IH [OF this] show ?thesis by (auto simp: s1)
    qed
  qed
qed

lemma step_total:
  assumes "aligned i s" "1 \<le> i" "i < len_df (df s)"
    and "signals s = Some sg" "length (Signal sg) = len_df (df s)"
  shows "step i s = Inr None
       \<or> (\<exists>s'. step i s = Inr (Some s') \<and> aligned (Suc i) s')"
  using assms
  by (auto simp: step_def Let_def aligned_def split: regime.splits)

lemma run_periods_upt:
  assumes "aligned a s" "1 \<le> a" "a \<le> b" "b \<le> len_df (df s)"
    and "signals s = Some sg" "length (Signal sg) = len_df (df s)"
  shows "\<exists>h s'. run_periods [a ..< b] s = Inr (h, s') \<and> (\<not> h \<longrightarrow> aligned b s')"
  using assms(3,4)
proof (induction rule: dec_induct)
  case base
  then show ?case using assms(1) by auto
next
  case (step n)
  then obtain h s' where r: "run_periods [a ..< n] s = Inr (h, s')" and al: "\<not> h \<longrightarrow> aligned n s'"
    by auto
  show ?case
  proof (cases h)
    case True
    with r step.hyps have "run_periods [a ..< Suc n] s = Inr (True, s')"
      by (simp add: run_periods_append)
    then show ?thesis by blast
  next
    case False
    from run_periods_extends [OF r] have same: "df s' = df s" "signals s' = signals s" by auto
    from False al have "aligned n s'" by simp
    moreover have "1 \<le> n" using assms(2) step.hyps by simp
    moreover have "n < len_df (df s')" using step.prems same by simp
    ultimately have "step n s' = Inr None
       \<or> (\<exists>s''. step n s' = Inr (Some s'') \<and> aligned (Suc n) s'')"
      using step_total [of n s' sg] assms(5,6) same by simp
    moreover have "run_periods [a ..< Suc n] s = run_periods [n] s'"
      using r False step.hyps by (simp add: run_periods_append)
    ultimately show ?thesis by auto
  qed
qed


lemma generate_signals_fields [simp]:
  "df (generate_signals s) = df s"
  "V_0 (generate_signals s) = V_0 s"
  "L (generate_signals s) = L s"
  "theta_0 (generate_signals s) = theta_0 s"
  "theta (generate_signals s) = theta s"
  "cap_V (generate_signals s) = cap_V s"
  "stock_hold (generate_signals s) = stock_hold s"
  "PnL (generate_signals s) = PnL s"
  "signals (generate_signals s) =
     Some \<lparr>Signal = replicate (len_df (df s)) 1, Position = diff_int (replicate (len_df (df s)) 1)\<rparr>"
  by (simp_all add: generate_signals_def Let_def)

lemma init_fields:
  assumes "init d v l = Inr s0"
  shows "df s0 = d" "V_0 s0 = v" "L s0 = l" "theta_0 s0 = v * l" "aligned 1 s0" "0 < len_df d"
  using assms by (auto simp: init_def column_at_def aligned_def split: if_splits)

lemma reaches_invariant:
  assumes "init d v l = Inr s0" and "reaches (generate_signals s0) i s" and "1 \<le> i" and "i \<le> len_df d"
  shows "aligned i s" "df s = d" "theta_0 s = v * l" "V_0 s = v"
    "signals s = Some \<lparr>Signal = replicate (len_df d) 1, Position = diff_int (replicate (len_df d) 1)\<rparr>"
proof -
  let ?s1 = "generate_signals s0"
  let ?sg = "\<lparr>Signal = replicate (len_df d) 1, Position = diff_int (replicate (len_df d) 1)\<rparr>"
  note f = init_fields [OF assms(1)]
  have r: "run_periods [1 ..< i] ?s1 = Inr (False, s)"
    using assms(2) by (simp add: reaches_def)
  have "aligned 1 ?s1" using f(5) by (simp add: aligned_def)
  moreover have "signals ?s1 = Some ?sg" by (simp add: f(1))
  moreover have "length (Signal ?sg) = len_df (df ?s1)" by (simp add: f(1))
  ultimately have "\<exists>h s'. run_periods [1 ..< i] ?s1 = Inr (h, s') \<and> (\<not> h \<longrightarrow> aligned i s')"
    using run_periods_upt [of 1 ?s1 i ?sg] assms(3,4) f(1) by simp
  with r show "aligned i s" by auto
  from run_periods_extends [OF r] show "df s = d" "theta_0 s = v * l" "V_0 s = v" "signals s = Some ?sg"
    by (simp_all add: f)
qed

lemma upt_split3: "a \<le> i \<Longrightarrow> i < n \<Longrightarrow> [a ..< n] = [a ..< i] @ i # [Suc i ..< n]"
proof -
  assume a: "a \<le> i" "i < n"
  then obtain k where n: "n = i + k" using less_imp_add_positive by blast
  have "[a ..< n] = [a ..< i] @ [i ..< n]"
    unfolding n using a(1) by (rule upt_add_eq_append)
  also have "[i ..< n] = i # [Suc i ..< n]" using a(2) by (rule upt_conv_Cons)
  finally show ?thesis .
qed

lemma run_total:
  assumes "init d v l = Inr s0"
  shows "\<exists>sf. run s0 = Inr sf"
proof -
  let ?s1 = "generate_signals s0"
  let ?sg = "\<lparr>Signal = replicate (len_df d) 1, Position = diff_int (replicate (len_df d) 1)\<rparr>"
  note f = init_fields [OF assms]
  have "aligned 1 ?s1" using f(5) by (simp add: aligned_def)
  moreover have "signals ?s1 = Some ?sg" by (simp add: f(1))
  moreover have "length (Signal ?sg) = len_df (df ?s1)" by (simp add: f(1))
  ultimately have "\<exists>h s'. run_periods [1 ..< len_df d] ?s1 = Inr (h, s') \<and> (\<not> h \<longrightarrow> aligned (len_df d) s')"
    using run_periods_upt [of 1 ?s1 "len_df d" ?sg] f(1,6) by simp
  then show ?thesis by (auto simp: run_def execute_strategy_def f(1))
qed

lemma wipeout_keeps_k_elements:
  assumes "init d v l = Inr s0"
    and "reaches (generate_signals s0) k s"
    and "1 \<le> k" and "k < len_df d"
    and "classify (v * l) v (stock_hold s ! (k - 1) * Adj_Close (rows d ! k)) = Wipeout"
  shows "run s0 = Inr s \<and> aligned k s"
proof -
  let ?s1 = "generate_signals s0"
  note f = init_fields [OF assms(1)]
  have le: "k \<le> len_df d" using assms(4) by simp
  note inv = reaches_invariant [OF assms(1,2,3) le]
  have len: "length (stock_hold s) = k" using inv(1) by (simp add: aligned_def)
  have st: "step k s = Inr None"
    using assms(3,4,5) by (simp add: step_def inv len Let_def)
  have r1: "run_periods [1 ..< k] ?s1 = Inr (False, s)"
    using assms(2) by (simp add: reaches_def)
  have split: "[1 ..< len_df d] = [1 ..< k] @ k # [Suc k ..< len_df d]"
    using upt_split3 [OF assms(3,4)] .
  have "run_periods [1 ..< len_df d] ?s1 = Inr (True, s)"
    unfolding split using r1 st by (simp add: run_periods_append)
  then show ?thesis using inv(1) by (simp add: run_def execute_strategy_def f(1))
qed

subsection \<open>The compounding loop\<close>

lemma cap_V_loop_append:
  "cap_V_loop (xs @ ys) tot s =
     (case cap_V_loop xs tot s of
        Inl e \<Rightarrow> Inl e
      | Inr (tot', s') \<Rightarrow> cap_V_loop ys tot' s')"
  by (induction xs arbitrary: tot s) (auto simp: Let_def split: sum.splits prod.splits)

lemma cap_V_loop_upt:
  assumes fx: "get_cap_V s = (col, s)" and lc: "length col = len_df (df s)"
    and "1 \<le> a" and "length tot = a" and "a \<le> b" and "b \<le> length col"
  shows "\<exists>tot'. cap_V_loop [a ..< b] tot s = Inr (tot', s) \<and> length tot' = b \<and> take a tot' = tot
           \<and> (\<forall>i. a \<le> i \<and> i < b \<longrightarrow>
                 tot' ! i = (tot' ! (i - 1) + col ! i) * (1 + Daily_Rate (rows (df s) ! i) / 100))"
  using assms(5,6)
proof (induction rule: dec_induct)
  case base
  then show ?case using assms(4) by simp
next
  case (step n)
  then obtain t where t: "cap_V_loop [a ..< n] tot s = Inr (t, s)" "length t = n" "take a t = tot"
    and rec: "\<forall>i. a \<le> i \<and> i < n \<longrightarrow>
                 t ! i = (t ! (i - 1) + col ! i) * (1 + Daily_Rate (rows (df s) ! i) / 100)"
    by auto
  let ?x = "(t ! (n - 1) + col ! n) * (1 + Daily_Rate (rows (df s) ! n) / 100)"
  have n1: "1 \<le> n" using assms(3) step.hyps by simp
  have nlt: "n < length col" using step.prems by simp
  have one: "cap_V_loop [n] t s = Inr (t @ [?x], s)"
    using n1 nlt t(2) fx lc by (simp add: column_at_def)
  have "cap_V_loop [a ..< Suc n] tot s = Inr (t @ [?x], s)"
    using step.hyps(1) t(1) one by (simp add: cap_V_loop_append)
  moreover have "length (t @ [?x]) = Suc n" using t(2) by simp
  moreover have "take a (t @ [?x]) = tot" using t(2,3) step.hyps(1) by simp
  moreover have "\<forall>i. a \<le> i \<and> i < Suc n \<longrightarrow>
      (t @ [?x]) ! i = ((t @ [?x]) ! (i - 1) + col ! i) * (1 + Daily_Rate (rows (df s) ! i) / 100)"
  proof (intro allI impI)
    fix i assume i: "a \<le> i \<and> i < Suc n"
    show "(t @ [?x]) ! i = ((t @ [?x]) ! (i - 1) + col ! i) * (1 + Daily_Rate (rows (df s) ! i) / 100)"
    proof (cases "i = n")
      case True
      then show ?thesis using t(2) n1 by (simp add: nth_append)
    next
      case False
      with i have "i < n" by simp
      moreover have "i - 1 < n" using \<open>i < n\<close> by simp
      ultimately show ?thesis using rec i t(2) by (simp add: nth_append)
    qed
  qed
  ultimately show ?case by blast
qed

lemma get_cap_V_fix:
  "get_cap_V (snd (get_cap_V s)) = get_cap_V s"
  by (simp add: get_cap_V_def Let_def extend_zeros_def len_df_def assign_def)

lemma get_cap_V_snd:
  "rows (df (snd (get_cap_V s))) = rows (df s)" "length (fst (get_cap_V s)) = len_df (df s)"
  by (simp_all add: get_cap_V_def Let_def extend_zeros_def len_df_def assign_def)

subsection \<open>Running sums\<close>

lemma length_cumsum_from: "length (cumsum_from acc xs) = length xs"
  by (induction acc xs rule: cumsum_from.induct) simp_all

lemma cumsum_from_mono:
  assumes "\<forall>x \<in> set xs. \<exists>y. x = Some y \<and> 0 \<le> y" and "i \<le> j" and "j < length xs"
  shows "\<exists>a b. cumsum_from acc xs ! i = Some a \<and> cumsum_from acc xs ! j = Some b
           \<and> acc \<le> a \<and> a \<le> b"
  using assms
proof (induction xs arbitrary: acc i j)
  case Nil
  then show ?case by simp
next
  case (Cons x xs)
  then obtain y where y: "x = Some y" "0 \<le> y" by auto
  have all: "\<forall>x \<in> set xs. \<exists>y. x = Some y \<and> 0 \<le> y" using Cons.prems(1) by simp
  show ?case
  proof (cases j)
    case 0
    with Cons.prems(2) have "i = 0" by simp
    with 0 y show ?thesis by simp
  next
    case (Suc j')
    then have j': "j' < length xs" using Cons.prems(3) by simp
    show ?thesis
    proof (cases i)
      case 0
      from Cons.IH [OF all, of j' j' "acc + y"] j'
      obtain b where "cumsum_from (acc + y) xs ! j' = Some b" "acc + y \<le> b" by auto
      with 0 Suc y show ?thesis by simp
    next
      case (Suc i')
      with Cons.prems(2) \<open>j = Suc j'\<close> have "i' \<le> j'" by simp
      from Cons.IH [OF all this j', of "acc + y"]
      obtain a b where "cumsum_from (acc + y) xs ! i' = Some a" "cumsum_from (acc + y) xs ! j' = Some b"
        "acc + y \<le> a" "a \<le> b" by auto
      with Suc \<open>j = Suc j'\<close> y show ?thesis by simp
    qed
  qed
qed

lemma abs_delta_Cons:
  "map abs_cell (delta (x # xs)) = None # map2 (\<lambda>a b. Some \<bar>a - b\<bar>) xs (butlast (x # xs))"
proof -
  have "map abs_cell (map2 sub_cell xs (map Some ys)) = map2 (\<lambda>a b. Some \<bar>a - b\<bar>) xs ys" for ys
    by (induction xs ys rule: list_induct2') (simp_all add: sub_cell_def abs_cell_def)
  then show ?thesis
    by (simp add: delta_def shift1_def sub_cell_def abs_cell_def del: butlast.simps)
qed

lemma turnover_series:
  assumes "1 \<le> i" and "i \<le> j" and "j < length xs"
  shows "length (cumsum (map abs_cell (delta xs))) = length xs
       \<and> cumsum (map abs_cell (delta xs)) ! 0 = None
       \<and> (\<exists>a b. cumsum (map abs_cell (delta xs)) ! i = Some a
              \<and> cumsum (map abs_cell (delta xs)) ! j = Some b \<and> 0 \<le> a \<and> a \<le> b)"
proof (cases xs)
  case Nil
  with assms show ?thesis by simp
next
  case (Cons x ys)
  let ?r = "map2 (\<lambda>a b. Some \<bar>a - b\<bar>) ys (butlast (x # ys))"
  have eq: "cumsum (map abs_cell (delta xs)) = None # cumsum_from 0 ?r"
    unfolding Cons abs_delta_Cons cumsum_def by simp
  have lr: "length ?r = length ys" by simp
  have all: "\<forall>c \<in> set ?r. \<exists>y. c = Some y \<and> 0 \<le> y"
    by (auto simp: set_zip)
  obtain i' j' where ij: "i = Suc i'" "j = Suc j'" "i' \<le> j'" "j' < length ?r"
    using assms Cons lr by (cases i; cases j) auto
  from cumsum_from_mono [OF all ij(3,4), of 0]
  obtain a b where "cumsum_from 0 ?r ! i' = Some a" "cumsum_from 0 ?r ! j' = Some b" "0 \<le> a" "a \<le> b"
    by blast
  then show ?thesis
    unfolding eq using ij(1,2) Cons lr by (simp add: length_cumsum_from)
qed

lemma nondecreasing_cumsum_from:
  "\<forall>x \<in> set xs. \<exists>y. x = Some y \<and> 0 \<le> y \<Longrightarrow> nondecreasing (cumsum_from acc xs)"
proof (induction xs arbitrary: acc)
  case Nil
  then show ?case by simp
next
  case (Cons x xs)
  then obtain y where y: "x = Some y" "0 \<le> y" by auto
  have all: "\<forall>x \<in> set xs. \<exists>y. x = Some y \<and> 0 \<le> y" using Cons.prems by simp
  show ?case
  proof (cases xs)
    case Nil
    with y show ?thesis by simp
  next
    case (Cons x' xs')
    with all obtain y' where y': "x' = Some y'" "0 \<le> y'" by auto
    have "nondecreasing (cumsum_from (acc + y) xs)" using Cons.IH [OF all] .
    with y y' Cons show ?thesis by simp
  qed
qed

lemma turnover_tail:
  "nondecreasing (tl (cumsum (map abs_cell (delta xs))))"
proof (cases xs)
  case Nil
  then show ?thesis by (simp add: delta_def shift1_def cumsum_def)
next
  case (Cons x ys)
  let ?r = "map2 (\<lambda>a b. Some \<bar>a - b\<bar>) ys (butlast (x # ys))"
  have eq: "cumsum (map abs_cell (delta xs)) = None # cumsum_from 0 ?r"
    unfolding Cons abs_delta_Cons cumsum_def by simp
  have all: "\<forall>c \<in> set ?r. \<exists>y. c = Some y \<and> 0 \<le> y"
    by (auto simp: set_zip)
  show ?thesis unfolding eq using nondecreasing_cumsum_from [OF all] by simp
qed

lemma turnover_head:
  "xs \<noteq> [] \<Longrightarrow> cumsum (map abs_cell (delta xs)) ! 0 = None"
  by (cases xs) (simp_all add: abs_delta_Cons cumsum_def del: butlast.simps)

subsection \<open>The example run\<close>

lemmas ex_defs = ex_table_def ex_signals_def ex_start_def ex_period2_def ex_final_def table_def

lemmas run_defs = init_def column_at_def len_df_def generate_signals_def diff_int_def Let_def
  reaches_def step_def classify_def append_period_def simulate_def run_def execute_strategy_def

lemmas tdefs = get_turnover_dollars_def get_turnover_unit_def get_theta_def get_stock_hold_def
  Let_def len_df_def extend_zeros_def delta_def shift1_def sub_cell_def abs_cell_def cumsum_def assign_def

lemma ex_init: "init ex_table 1000 2 = Inr ex_start"
  by (simp add: ex_defs init_def column_at_def len_df_def)

lemma ex_reaches_1: "reaches (generate_signals ex_start) 1 (generate_signals ex_start)"
  by (simp add: reaches_def)

lemma ex_reaches_2: "reaches (generate_signals ex_start) 2 ex_period2"
  by (simp add: ex_defs run_defs upt_rec)

section \<open>The claims\<close>

text \<open>
  C1. The claim: when the wipeout regime first fires at period \<open>k\<close>, each raw list has
  \<open>k + 1\<close> elements, the last being the values computed for the wipeout period. The
  code leaves the loop before its four appends, so the values computed in the last
  branch are dropped: on the example table the wipeout fires at period 3, the run ends
  with three elements in each list, not four, and the padded capital column holds
  \<open>0\<close> at index 3, not \<open>200/11 * 30 - 2000\<close>.
\<close>

theorem wipeout_period_not_appended:
  "simulate ex_table 1000 2 = Inr ex_final
   \<and> reaches (generate_signals ex_start) 3 ex_final
   \<and> classify (theta_0 ex_final) (V_0 ex_final) (stock_hold ex_final ! 2 * Adj_Close (rows ex_table ! 3)) = Wipeout
   \<and> aligned 3 ex_final \<and> \<not> aligned 4 ex_final
   \<and> fst (get_cap_V ex_final) = [0, 200, 0, 0, 0]
   \<and> \<bar>stock_hold ex_final ! 2 * Adj_Close (rows ex_table ! 3)\<bar> - theta_0 ex_final = - (16000 / 11)"
  by (simp add: ex_defs run_defs upt_rec aligned_def get_cap_V_def extend_zeros_def)

text \<open>
  C2. At a period \<open>i\<close> that the run reaches with a trial exposure
  \<open>theta_t = stock_hold[i-1] * price[i]\<close> above \<open>theta_0\<close> in absolute value, the run
  completes and its lists hold at index \<open>i\<close>: \<open>cap_V[i] = |theta_t| - theta_0\<close>,
  \<open>PnL[i] = return[i] * theta_t\<close> (on the exposure before the trim),
  \<open>theta[i] = theta_0 * signal[i]\<close> with \<open>signal[i] = 1\<close>, and
  \<open>stock_hold[i] = theta[i] / price[i]\<close>. Prices are not zero.
\<close>

theorem over_exposed_values:
  assumes "init d v l = Inr s0"
    and "reaches (generate_signals s0) i s"
    and "1 \<le> i" and "i < len_df d"
    and "0 \<notin> Adj_Close ` set (rows d)"
    and "theta_t = stock_hold s ! (i - 1) * Adj_Close (rows d ! i)"
    and "\<bar>theta_t\<bar> > theta_0 s0"
  shows "\<exists>sf sg. run s0 = Inr sf \<and> signals sf = Some sg \<and> Signal sg ! i = 1
           \<and> i < length (theta sf) \<and> i < length (cap_V sf)
           \<and> i < length (PnL sf) \<and> i < length (stock_hold sf)
           \<and> stock_hold sf ! (i - 1) = stock_hold s ! (i - 1)
           \<and> cap_V sf ! i = \<bar>theta_t\<bar> - theta_0 s0
           \<and> PnL sf ! i = Return_Unit (rows d ! i) * theta_t
           \<and> theta sf ! i = theta_0 s0 * real_of_int (Signal sg ! i)
           \<and> stock_hold sf ! i = theta sf ! i / Adj_Close (rows d ! i)"
proof -
  let ?s1 = "generate_signals s0"
  let ?sg = "\<lparr>Signal = replicate (len_df d) 1, Position = diff_int (replicate (len_df d) 1)\<rparr>"
  let ?p = "Adj_Close (rows d ! i)"
  note f = init_fields [OF assms(1)]
  have le: "i \<le> len_df d" using assms(4) by simp
  note inv = reaches_invariant [OF assms(1,2,3) le]
  have len: "length (theta s) = i" "length (cap_V s) = i" "length (PnL s) = i" "length (stock_hold s) = i"
    using inv(1) by (simp_all add: aligned_def)
  define s' where "s' = append_period (\<bar>theta_t\<bar> - v * l) (v * l * real_of_int (Signal ?sg ! i))
      (v * l * real_of_int (Signal ?sg ! i) / ?p) (Return_Unit (rows d ! i) * theta_t) s"
  have cls: "classify (v * l) v theta_t = Over_exposed"
    using assms(7) by (simp add: classify_def f(4))
  have st: "step i s = Inr (Some s')"
    using assms(3,4) cls
    by (simp add: step_def inv len Let_def s'_def assms(6) del: replicate.simps nth_replicate)
  have r1: "run_periods [1 ..< i] ?s1 = Inr (False, s)"
    using assms(2) by (simp add: reaches_def)
  have split: "[1 ..< len_df d] = [1 ..< i] @ i # [Suc i ..< len_df d]"
    using upt_split3 [OF assms(3,4)] .
  have run_eq: "run_periods [1 ..< len_df d] ?s1 = run_periods [Suc i ..< len_df d] s'"
    unfolding split using r1 st by (simp add: run_periods_append)
  have al': "aligned (Suc i) s'" using len by (simp add: aligned_def s'_def)
  have "\<exists>h sf. run_periods [Suc i ..< len_df d] s' = Inr (h, sf) \<and> (\<not> h \<longrightarrow> aligned (len_df d) sf)"
    using run_periods_upt [of "Suc i" s' "len_df d" ?sg] al' assms(4) inv
    by (simp add: s'_def)
  then obtain h sf where rest: "run_periods [Suc i ..< len_df d] s' = Inr (h, sf)" by blast
  from run_periods_extends [OF rest]
  obtain a b c e where ext: "signals sf = signals s'" "theta sf = theta s' @ a" "cap_V sf = cap_V s' @ b"
    "stock_hold sf = stock_hold s' @ c" "PnL sf = PnL s' @ e"
    by blast
  have "run s0 = Inr sf"
    using run_eq rest by (simp add: run_def execute_strategy_def f(1))
  moreover have "signals sf = Some ?sg" using ext(1) inv(5) by (simp add: s'_def)
  moreover have "Signal ?sg ! i = 1" using assms(4) by simp
  moreover have "i < length (theta sf)" "i < length (cap_V sf)" "i < length (PnL sf)" "i < length (stock_hold sf)"
    using ext len by (simp_all add: s'_def)
  moreover have "stock_hold sf ! (i - 1) = stock_hold s ! (i - 1)"
    using ext(4) len(4) assms(3) by (simp add: s'_def nth_append)
  moreover have "cap_V sf ! i = \<bar>theta_t\<bar> - theta_0 s0"
    using ext(3) len(2) by (simp add: s'_def nth_append f(4))
  moreover have "PnL sf ! i = Return_Unit (rows d ! i) * theta_t"
    using ext(5) len(3) by (simp add: s'_def nth_append)
  moreover have th: "theta sf ! i = theta_0 s0 * real_of_int (Signal ?sg ! i)"
    using ext(2) len(1) by (simp add: s'_def nth_append f(4) del: nth_replicate)
  moreover have "stock_hold sf ! i = theta sf ! i / ?p"
    using ext(4) len(4) by (simp add: th) (simp add: s'_def nth_append f(4))
  ultimately show ?thesis by blast
qed

theorem over_exposed_values_witness:
  "init ex_table 1000 2 = Inr ex_start
   \<and> reaches (generate_signals ex_start) 1 (generate_signals ex_start)
   \<and> 1 < len_df ex_table \<and> 0 \<notin> Adj_Close ` set (rows ex_table)
   \<and> \<bar>2200 :: real\<bar> > theta_0 ex_start
   \<and> (\<exists>sf. run ex_start = Inr sf \<and> cap_V sf ! 1 = 200 \<and> PnL sf ! 1 = 22
          \<and> theta sf ! 1 = 2000 \<and> stock_hold sf ! 1 = 200 / 11)"
proof -
  have h3: "(1::nat) \<le> 1" by simp
  have h4: "1 < len_df ex_table" by (simp add: ex_defs len_df_def)
  have h5: "0 \<notin> Adj_Close ` set (rows ex_table)" by (simp add: ex_defs)
  have h6: "(2200::real) = stock_hold (generate_signals ex_start) ! (1 - 1) * Adj_Close (rows ex_table ! 1)"
    by (simp add: ex_defs generate_signals_def Let_def)
  have h7: "\<bar>2200 :: real\<bar> > theta_0 ex_start" by (simp add: ex_defs)
  have rw: "Adj_Close (rows ex_table ! 1) = 110" "Return_Unit (rows ex_table ! 1) = 1 / 100"
    "theta_0 ex_start = 2000"
    by (simp_all add: ex_defs)
  from over_exposed_values [OF ex_init ex_reaches_1 h3 h4 h5 h6 h7]
  have "\<exists>sf. run ex_start = Inr sf \<and> cap_V sf ! 1 = 200 \<and> PnL sf ! 1 = 22
          \<and> theta sf ! 1 = 2000 \<and> stock_hold sf ! 1 = 200 / 11"
    unfolding rw by auto
  with ex_init ex_reaches_1 h4 h5 h7 show ?thesis by blast
qed



text \<open>
  C4. The claim: a non-positive investment, a non-positive leverage or a non-positive
  seed price is rejected at construction. The constructor checks none of them: a
  one-row table with \<open>V_0 = -1000\<close> is accepted.
\<close>

theorem init_unvalidated_counterexample:
  "\<not> isl (init (table [100]) (- 1000) 2)"
  by (simp add: init_def column_at_def len_df_def table_def)

text \<open>
  C4, as amended. The constructor validates nothing: whenever the seed price
  \<open>price[0]\<close> can be read, construction succeeds for every \<open>V_0\<close> and \<open>L\<close> and
  every seed price, whatever their sign, and yields the seed state.
\<close>

theorem init_accepts_any_configuration:
  assumes "column_at Adj_Close d 0 = Inr p0"
  shows "\<exists>s. init d v l = Inr s \<and> V_0 s = v \<and> L s = l \<and> theta_0 s = v * l
           \<and> theta s = [v * l] \<and> cap_V s = [0] \<and> PnL s = [0]
           \<and> (p0 \<noteq> 0 \<longrightarrow> stock_hold s = [v * l / p0])"
  using assms by (simp add: init_def)

theorem init_accepts_any_configuration_witness:
  "column_at Adj_Close (table [- 50]) 0 = Inr (- 50) \<and> (- 50 :: real) \<noteq> 0
   \<and> (\<exists>s. init (table [- 50]) (- 1000) 2 = Inr s \<and> V_0 s = - 1000 \<and> L s = 2
        \<and> theta s = [- 2000] \<and> cap_V s = [0] \<and> PnL s = [0] \<and> stock_hold s = [40])"
proof -
  have h: "column_at Adj_Close (table [- 50]) 0 = Inr (- 50)"
    by (simp add: column_at_def len_df_def table_def)
  from init_accepts_any_configuration [OF h, of "- 1000" 2] h show ?thesis by auto
qed

text \<open>
  C5. At the start of every iteration \<open>i\<close> that a run reaches, the four lists have
  \<open>i\<close> elements each, so \<open>stock_hold[-1]\<close> is \<open>stock_hold[i-1]\<close>; the iteration
  either leaves the loop or appends one element to each list.
\<close>

theorem lists_grow_together:
  assumes "init d v l = Inr s0"
    and "reaches (generate_signals s0) i s"
    and "1 \<le> i" and "i \<le> len_df d"
  shows "aligned i s
       \<and> last (stock_hold s) = stock_hold s ! (i - 1)
       \<and> (i < len_df d \<longrightarrow>
            step i s = Inr None
          \<or> (\<exists>s'. step i s = Inr (Some s') \<and> aligned (Suc i) s'
                  \<and> reaches (generate_signals s0) (Suc i) s'))"
proof -
  note inv = reaches_invariant [OF assms]
  have len: "length (stock_hold s) = i" using inv(1) by (simp add: aligned_def)
  then have ne: "stock_hold s \<noteq> []" using assms(3) by auto
  have l: "last (stock_hold s) = stock_hold s ! (i - 1)"
    using last_conv_nth [OF ne] len by simp
  have "step i s = Inr None
          \<or> (\<exists>s'. step i s = Inr (Some s') \<and> aligned (Suc i) s'
                  \<and> reaches (generate_signals s0) (Suc i) s')" if lt: "i < len_df d"
  proof -
    have "step i s = Inr None \<or> (\<exists>s'. step i s = Inr (Some s') \<and> aligned (Suc i) s')"
      using step_total [OF inv(1) assms(3) _ inv(5)] lt inv(2) by simp
    moreover have "reaches (generate_signals s0) (Suc i) s'" if "step i s = Inr (Some s')" for s'
      using that assms(2,3) by (simp add: reaches_def run_periods_append)
    ultimately show ?thesis by blast
  qed
  with inv(1) l show ?thesis by blast
qed

theorem lists_grow_together_witness:
  "init ex_table 1000 2 = Inr ex_start
   \<and> reaches (generate_signals ex_start) 2 ex_period2
   \<and> 2 < len_df ex_table
   \<and> aligned 2 ex_period2
   \<and> last (stock_hold ex_period2) = stock_hold ex_period2 ! 1
   \<and> (\<exists>s'. step 2 ex_period2 = Inr (Some s') \<and> aligned 3 s')"
proof -
  have h3: "(1::nat) \<le> 2" by simp
  have h4: "2 \<le> len_df ex_table" "2 < len_df ex_table" by (simp_all add: ex_defs len_df_def)
  have ns: "step 2 ex_period2 \<noteq> Inr None"
    by (simp add: ex_defs step_def classify_def len_df_def Let_def)
  from lists_grow_together [OF ex_init ex_reaches_2 h3 h4(1)] h4(2) ns
  have "aligned 2 ex_period2 \<and> last (stock_hold ex_period2) = stock_hold ex_period2 ! 1
     \<and> (\<exists>s'. step 2 ex_period2 = Inr (Some s') \<and> aligned 3 s')"
    by (auto simp: eval_nat_numeral)
  with ex_init ex_reaches_2 h4(2) show ?thesis by blast
qed

text \<open>
  C6. With \<open>V_0 > 0\<close> and a seed price \<open>price[0] > 0\<close> the constructor succeeds and
  seeds \<open>theta = [V_0 * L]\<close>, \<open>cap_V = [0]\<close>, \<open>PnL = [0]\<close> and
  \<open>stock_hold = [theta_0 / price[0]]\<close>, where \<open>theta_0 = V_0 * L\<close>.
\<close>

theorem seed_values:
  assumes "0 < v" and "rows d \<noteq> []" and "0 < Adj_Close (rows d ! 0)"
  shows "\<exists>s. init d v l = Inr s \<and> theta_0 s = v * l
           \<and> theta s = [v * l] \<and> cap_V s = [0] \<and> PnL s = [0]
           \<and> stock_hold s = [theta_0 s / Adj_Close (rows d ! 0)]"
  using assms by (simp add: init_def column_at_def len_df_def)

theorem seed_values_witness:
  "(0::real) < 1000 \<and> rows (table [100, 110]) \<noteq> [] \<and> 0 < Adj_Close (rows (table [100, 110]) ! 0)
   \<and> (\<exists>s. init (table [100, 110]) 1000 2 = Inr s \<and> theta_0 s = 2000
           \<and> theta s = [2000] \<and> cap_V s = [0] \<and> PnL s = [0] \<and> stock_hold s = [20])"
  using seed_values [of 1000 "table [100, 110]" 2]
  by (auto simp: table_def)

text \<open>
  C7. Each of the four padding accessors returns a column of \<open>len(df)\<close> cells that
  agrees with the raw list on the indices the list has and is \<open>0\<close> beyond them.
\<close>

theorem padded_accessors:
  "length (fst (get_theta s)) = len_df (df s)
   \<and> length (fst (get_stock_hold s)) = len_df (df s)
   \<and> length (fst (get_cap_V s)) = len_df (df s)
   \<and> length (fst (get_PnL s)) = len_df (df s)
   \<and> (\<forall>i < len_df (df s).
        fst (get_theta s) ! i = (if i < length (theta s) then theta s ! i else 0)
      \<and> fst (get_stock_hold s) ! i = (if i < length (stock_hold s) then stock_hold s ! i else 0)
      \<and> fst (get_cap_V s) ! i = (if i < length (cap_V s) then cap_V s ! i else 0)
      \<and> fst (get_PnL s) ! i = (if i < length (PnL s) then PnL s ! i else 0))"
  by (simp add: get_theta_def get_stock_hold_def get_cap_V_def get_PnL_def Let_def
      length_padded nth_padded del: length_take nth_take)

theorem padded_accessors_witness:
  "3 < len_df (df ex_final) \<and> \<not> 3 < length (theta ex_final)
   \<and> length (fst (get_theta ex_final)) = 5
   \<and> fst (get_theta ex_final) ! 3 = 0 \<and> fst (get_stock_hold ex_final) ! 3 = 0
   \<and> fst (get_cap_V ex_final) ! 3 = 0 \<and> fst (get_PnL ex_final) ! 3 = 0"
proof -
  have h: "3 < len_df (df ex_final)" by (simp add: ex_defs len_df_def)
  have l: "len_df (df ex_final) = 5" "length (theta ex_final) = 3" "length (stock_hold ex_final) = 3"
    "length (cap_V ex_final) = 3" "length (PnL ex_final) = 3"
    by (simp_all add: ex_defs len_df_def)
  from padded_accessors [of ex_final] h show ?thesis
    unfolding l by auto
qed

text \<open>
  C8. On an object whose table has at least one row, \<open>get_cumulative_cap_V\<close> returns
  a series \<open>tot\<close> of \<open>len(df)\<close> cells with \<open>tot[0] = 0\<close> and, for \<open>i \<ge> 1\<close>,
  \<open>tot[i] = (tot[i-1] + capV[i]) * (1 + rate[i] / 100)\<close>, where \<open>capV\<close> is the
  padded capital column that \<open>get_cap_V\<close> returns.
\<close>

theorem cumulative_cap_V_recurrence:
  assumes "0 < len_df (df s)"
  shows "\<exists>tot s'. get_cumulative_cap_V s = Inr (tot, s')
           \<and> length tot = len_df (df s) \<and> tot ! 0 = 0
           \<and> (\<forall>i. 1 \<le> i \<and> i < len_df (df s) \<longrightarrow>
                 tot ! i = (tot ! (i - 1) + fst (get_cap_V s) ! i)
                           * (1 + Daily_Rate (rows (df s) ! i) / 100))"
proof -
  let ?col = "fst (get_cap_V s)" and ?s0 = "snd (get_cap_V s)"
  let ?n = "len_df (df s)"
  have fx: "get_cap_V ?s0 = (?col, ?s0)" using get_cap_V_fix [of s] by simp
  have rows0: "rows (df ?s0) = rows (df s)" by (rule get_cap_V_snd)
  have n0: "len_df (df ?s0) = ?n" using rows0 by (simp add: len_df_def)
  have lc: "length ?col = len_df (df ?s0)" using get_cap_V_snd(2) [of s] n0 by simp
  have "\<exists>tot'. cap_V_loop [1 ..< ?n] [0] ?s0 = Inr (tot', ?s0) \<and> length tot' = ?n \<and> take 1 tot' = [0]
           \<and> (\<forall>i. 1 \<le> i \<and> i < ?n \<longrightarrow>
                 tot' ! i = (tot' ! (i - 1) + ?col ! i) * (1 + Daily_Rate (rows (df ?s0) ! i) / 100))"
    using cap_V_loop_upt [OF fx lc, of 1 "[0]" ?n] assms lc n0 by simp
  then obtain tot where t: "cap_V_loop [1 ..< ?n] [0] ?s0 = Inr (tot, ?s0)" "length tot = ?n"
      "take 1 tot = [0]"
    and rec: "\<forall>i. 1 \<le> i \<and> i < ?n \<longrightarrow>
                 tot ! i = (tot ! (i - 1) + ?col ! i) * (1 + Daily_Rate (rows (df s) ! i) / 100)"
    unfolding rows0 by blast
  have z: "tot ! 0 = 0"
  proof (cases tot)
    case Nil
    with t(3) show ?thesis by simp
  next
    case (Cons x xs)
    with t(3) show ?thesis by simp
  qed
  have "get_cumulative_cap_V s =
      Inr (tot, ?s0\<lparr>df := (df ?s0)\<lparr>written := AList.update ''cumulative_cap_V'' (map Some tot) (written (df ?s0))\<rparr>\<rparr>)"
    using t(1,2) n0 get_cap_V_snd(2) [of s]
    by (simp add: get_cumulative_cap_V_def split_beta Let_def set_column_def)
  with t(2) z rec show ?thesis by blast
qed

theorem cumulative_cap_V_recurrence_witness:
  "0 < len_df (df ex_final)
   \<and> (\<exists>tot s'. get_cumulative_cap_V ex_final = Inr (tot, s')
         \<and> length tot = 5 \<and> tot ! 0 = 0 \<and> tot ! 1 = 202)"
proof -
  have h: "0 < len_df (df ex_final)" by (simp add: ex_defs len_df_def)
  have rw: "len_df (df ex_final) = 5" "fst (get_cap_V ex_final) ! 1 = 200"
    "Daily_Rate (rows (df ex_final) ! 1) = 1"
    by (simp_all add: ex_defs len_df_def get_cap_V_def extend_zeros_def Let_def)
  from cumulative_cap_V_recurrence [OF h]
  obtain tot s' where t: "get_cumulative_cap_V ex_final = Inr (tot, s')" "length tot = 5" "tot ! 0 = 0"
    and rec: "\<forall>i. 1 \<le> i \<and> i < 5 \<longrightarrow>
                tot ! i = (tot ! (i - 1) + fst (get_cap_V ex_final) ! i)
                          * (1 + Daily_Rate (rows (df ex_final) ! i) / 100)"
    unfolding rw(1) by blast
  from rec have "tot ! 1 = (tot ! (1 - 1) + fst (get_cap_V ex_final) ! 1)
                          * (1 + Daily_Rate (rows (df ex_final) ! 1) / 100)"
    by simp
  then have "tot ! 1 = 202" unfolding rw using t(3) by simp
  with h t show ?thesis by blast
qed

text \<open>
  C9. The claim: both turnover series are non-decreasing across the padded series.
  The first cell of either series is \<open>NaN\<close>, because \<open>shift(1)\<close> has no value
  before the first row and \<open>cumsum\<close> leaves a \<open>NaN\<close> cell as it is; a \<open>NaN\<close>
  cell is in no order with the cell after it, so on the example run neither series
  is non-decreasing from its first cell.
\<close>

theorem turnover_first_cell_counterexample:
  "fst (get_turnover_dollars ex_final) ! 0 = None
   \<and> \<not> nondecreasing (fst (get_turnover_dollars ex_final))
   \<and> fst (get_turnover_unit ex_final) ! 0 = None
   \<and> \<not> nondecreasing (fst (get_turnover_unit ex_final))"
  by (simp add: ex_defs tdefs)

text \<open>
  C9, as amended. Each turnover series (dollars, on the padded exposure column;
  units, on the padded holdings column) has \<open>len(df)\<close> cells; cell 0 is \<open>NaN\<close>,
  and from index 1 on the cells are numbers that are not negative and never
  decrease.
\<close>

theorem turnover_nondecreasing_from_1:
  assumes "t = fst (get_turnover_dollars s) \<or> t = fst (get_turnover_unit s)"
  shows "length t = len_df (df s)
       \<and> (0 < len_df (df s) \<longrightarrow> t ! 0 = None)
       \<and> nondecreasing (tl t)
       \<and> (\<forall>i j. 1 \<le> i \<and> i \<le> j \<and> j < len_df (df s) \<longrightarrow>
             (\<exists>a b. t ! i = Some a \<and> t ! j = Some b \<and> 0 \<le> a \<and> a \<le> b))"
proof -
  have ld: "length (fst (get_theta s)) = len_df (df s)"
    by (simp add: get_theta_def Let_def extend_zeros_def)
  have lu: "length (fst (get_stock_hold s)) = len_df (df s)"
    by (simp add: get_stock_hold_def Let_def extend_zeros_def)
  have d: "fst (get_turnover_dollars s) = cumsum (map abs_cell (delta (fst (get_theta s))))"
    by (simp add: get_turnover_dollars_def split_beta Let_def)
  have u: "fst (get_turnover_unit s) = cumsum (map abs_cell (delta (fst (get_stock_hold s))))"
    by (simp add: get_turnover_unit_def split_beta Let_def)
  have gen: "length (cumsum (map abs_cell (delta xs))) = n
       \<and> (0 < n \<longrightarrow> cumsum (map abs_cell (delta xs)) ! 0 = None)
       \<and> nondecreasing (tl (cumsum (map abs_cell (delta xs))))
       \<and> (\<forall>i j. 1 \<le> i \<and> i \<le> j \<and> j < n \<longrightarrow>
             (\<exists>a b. cumsum (map abs_cell (delta xs)) ! i = Some a
                  \<and> cumsum (map abs_cell (delta xs)) ! j = Some b \<and> 0 \<le> a \<and> a \<le> b))"
    if n: "length xs = n" for xs n
  proof -
    have "length (cumsum (map abs_cell (delta xs))) = n"
      using n by (cases xs) (simp_all add: abs_delta_Cons cumsum_def length_cumsum_from delta_def shift1_def del: butlast.simps)
    moreover have "0 < n \<longrightarrow> cumsum (map abs_cell (delta xs)) ! 0 = None"
      using n turnover_head [of xs] by auto
    moreover note turnover_tail [of xs]
    moreover have "\<forall>i j. 1 \<le> i \<and> i \<le> j \<and> j < n \<longrightarrow>
             (\<exists>a b. cumsum (map abs_cell (delta xs)) ! i = Some a
                  \<and> cumsum (map abs_cell (delta xs)) ! j = Some b \<and> 0 \<le> a \<and> a \<le> b)"
      using turnover_series [of _ _ xs] n by blast
    ultimately show ?thesis by blast
  qed
  from assms show ?thesis
  proof
    assume "t = fst (get_turnover_dollars s)"
    then show ?thesis using gen [OF ld] d by simp
  next
    assume "t = fst (get_turnover_unit s)"
    then show ?thesis using gen [OF lu] u by simp
  qed
qed

theorem turnover_nondecreasing_from_1_witness:
  "(1::nat) \<le> 2 \<and> (2::nat) \<le> 3 \<and> 3 < len_df (df ex_final)
   \<and> length (fst (get_turnover_dollars ex_final)) = 5
   \<and> fst (get_turnover_dollars ex_final) ! 0 = None
   \<and> nondecreasing (tl (fst (get_turnover_dollars ex_final)))
   \<and> (\<exists>a b. fst (get_turnover_dollars ex_final) ! 2 = Some a
          \<and> fst (get_turnover_dollars ex_final) ! 3 = Some b \<and> 0 \<le> a \<and> a \<le> b)
   \<and> length (fst (get_turnover_unit ex_final)) = 5
   \<and> fst (get_turnover_unit ex_final) ! 0 = None
   \<and> nondecreasing (tl (fst (get_turnover_unit ex_final)))
   \<and> (\<exists>a b. fst (get_turnover_unit ex_final) ! 2 = Some a
          \<and> fst (get_turnover_unit ex_final) ! 3 = Some b \<and> 0 \<le> a \<and> a \<le> b)"
proof -
  have h3: "3 < len_df (df ex_final)" by (simp add: ex_defs len_df_def)
  have n: "len_df (df ex_final) = 5" by (simp add: ex_defs len_df_def)
  have ij: "(1::nat) \<le> 2 \<and> (2::nat) \<le> 3 \<and> (3::nat) < 5" by simp
  from turnover_nondecreasing_from_1 [of "fst (get_turnover_dollars ex_final)" ex_final]
    turnover_nondecreasing_from_1 [of "fst (get_turnover_unit ex_final)" ex_final]
    h3 ij
  show ?thesis unfolding n by (simp del: One_nat_def)
qed

text \<open>
  C10. A second call of a padding accessor returns the same column and leaves the
  object as the first call left it: nothing more is appended.
\<close>

theorem accessors_idempotent:
  "get_theta (snd (get_theta s)) = get_theta s
   \<and> get_stock_hold (snd (get_stock_hold s)) = get_stock_hold s
   \<and> get_cap_V (snd (get_cap_V s)) = get_cap_V s
   \<and> get_PnL (snd (get_PnL s)) = get_PnL s"
  by (simp add: get_theta_def get_stock_hold_def get_cap_V_def get_PnL_def Let_def
      extend_zeros_idem len_df_assign assign_idem)

end
